theory Spec2Isabelle
  imports Complex_Main "HOL-Library.Char_ord" "HOL-Library.List_Lexorder"
    "HOL-Library.Log_Nat" "HOL-Library.Multiset"
begin

section \<open>Numbers of a numeric column\<close>

text \<open>
  A cell of a \<^verbatim>\<open>float64\<close> column is a binary64 number: minus infinity, a finite
  number or plus infinity; NaN is the missing cell and is not a value of this type. The
  two zeros compare equal in pandas and are one value here. A finite number is given by
  the rational it denotes; the results of arithmetic are rounded to binary64, to nearest
  with ties to even, and overflow to an infinity. The order is that of the numbers.
\<close>

datatype float64 = NInf | Finite rat | PInf

instantiation float64 :: linorder
begin

fun less_eq_float64 :: "float64 \<Rightarrow> float64 \<Rightarrow> bool" where
  "less_eq_float64 NInf y = True"
| "less_eq_float64 (Finite a) NInf = False"
| "less_eq_float64 (Finite a) (Finite b) = (a \<le> b)"
| "less_eq_float64 (Finite a) PInf = True"
| "less_eq_float64 PInf PInf = True"
| "less_eq_float64 PInf y = False"

definition less_float64 :: "float64 \<Rightarrow> float64 \<Rightarrow> bool" where
  "less_float64 x y = (x \<le> y \<and> \<not> y \<le> x)"

instance
proof
  fix x y z :: float64
  show "x < y \<longleftrightarrow> x \<le> y \<and> \<not> y \<le> x" by (rule less_float64_def)
  show "x \<le> x" by (cases x) simp_all
  show "x \<le> y \<Longrightarrow> y \<le> z \<Longrightarrow> x \<le> z" by (cases x; cases y; cases z) simp_all
  show "x \<le> y \<Longrightarrow> y \<le> x \<Longrightarrow> x = y" by (cases x; cases y) simp_all
  show "x \<le> y \<or> y \<le> x" by (cases x; cases y) auto
qed

end

definition pow2 :: "int \<Rightarrow> rat" where
  "pow2 k = 2 powi k"

text \<open>The binary exponent of a positive rational \<open>q\<close>: the \<open>k\<close> with \<open>2^k \<le> q < 2^(k+1)\<close>.\<close>

definition ilog2 :: "rat \<Rightarrow> int" where
  "ilog2 q =
     (case quotient_of q of (p, d) \<Rightarrow>
        (let k = bitlen p - bitlen d in if pow2 k \<le> q then k else k - 1))"

definition round_half_even :: "rat \<Rightarrow> int" where
  "round_half_even t =
     (let f = \<lfloor>t\<rfloor>; r = t - of_int f
      in if r < 1 / 2 then f else if 1 / 2 < r then f + 1 else if even f then f else f + 1)"

text \<open>
  Rounding to binary64. The unit in the last place of \<open>q\<close> is \<open>2^e\<close>, with 53
  significant bits and not below the subnormal unit \<open>2^-1074\<close>; the significand \<open>m\<close> is
  the quotient rounded to an integer. The result overflows when its exponent passes the
  largest one, that is when \<open>m * 2^e\<close> reaches \<open>2^1024\<close>.
\<close>

definition round64 :: "rat \<Rightarrow> float64" where
  "round64 q =
     (if q = 0 then Finite 0
      else (let a = \<bar>q\<bar>;
                e = max (ilog2 a - 52) (- 1074);
                m = round_half_even (a / pow2 e)
            in if 971 < e then (if 0 < q then PInf else NInf)
               else if e = 971 \<and> m = 2 ^ 53 then (if 0 < q then PInf else NInf)
               else Finite (if 0 < q then of_int m * pow2 e else - (of_int m * pow2 e))))"

text \<open>
  Addition and halving in binary64. The sum of the two infinities of opposite sign is NaN,
  here \<open>None\<close>.
\<close>

fun fadd :: "float64 \<Rightarrow> float64 \<Rightarrow> float64 option" where
  "fadd (Finite a) (Finite b) = Some (round64 (a + b))"
| "fadd PInf NInf = None"
| "fadd NInf PInf = None"
| "fadd PInf y = Some PInf"
| "fadd NInf y = Some NInf"
| "fadd (Finite a) y = Some y"

fun fhalf :: "float64 \<Rightarrow> float64" where
  "fhalf (Finite a) = round64 (a / 2)"
| "fhalf x = x"

section \<open>Tables\<close>

text \<open>
  The pipeline of \<^verbatim>\<open>EDAFlow.py\<close> works on a pandas DataFrame. The model keeps the part
  of a DataFrame the handlers look at: an ordered list of labelled columns, every column
  carrying its dtype and its cells. A column of dtype \<^verbatim>\<open>object\<close> holds strings, a
  numeric column (\<^verbatim>\<open>float64\<close>) holds binary64 numbers; a missing cell (NaN) is
  \<open>None\<close>. Strings are byte lists ordered lexicographically, which is the order of
  Python's \<^verbatim>\<open>str\<close> on UTF-8 text.
\<close>

datatype column = ObjectCol "string option list" | NumCol "float64 option list"

type_synonym dataframe = "(string \<times> column) list"

datatype cell = SCell "string option" | NCell "float64 option"

fun col_len :: "column \<Rightarrow> nat" where
  "col_len (ObjectCol xs) = length xs"
| "col_len (NumCol xs) = length xs"

fun cell_at :: "column \<Rightarrow> nat \<Rightarrow> cell" where
  "cell_at (ObjectCol xs) i = SCell (xs ! i)"
| "cell_at (NumCol xs) i = NCell (xs ! i)"

text \<open>Every column of a DataFrame has one cell per row of the index.\<close>

definition nrows :: "dataframe \<Rightarrow> nat" where
  "nrows df = (case df of [] \<Rightarrow> 0 | (n, c) # cs \<Rightarrow> col_len c)"

definition well_formed :: "dataframe \<Rightarrow> bool" where
  "well_formed df = list_all (\<lambda>(n, c). col_len c = nrows df) df"

definition row :: "dataframe \<Rightarrow> nat \<Rightarrow> cell list" where
  "row df i = map (\<lambda>(n, c). cell_at c i) df"

definition rows :: "dataframe \<Rightarrow> cell list list" where
  "rows df = map (row df) [0..<nrows df]"

subsection \<open>\<^verbatim>\<open>DataFrame.drop_duplicates\<close>\<close>

text \<open>
  \<^verbatim>\<open>df.drop_duplicates(inplace=True)\<close> with its defaults compares whole rows, marks a
  row as duplicated when an earlier row has the same cells (two missing cells compare
  equal) and keeps the unmarked rows in their order.
\<close>

definition duplicated :: "dataframe \<Rightarrow> nat \<Rightarrow> bool" where
  "duplicated df i = (row df i \<in> set (map (row df) [0..<i]))"

definition kept :: "dataframe \<Rightarrow> nat list" where
  "kept df = filter (\<lambda>i. \<not> duplicated df i) [0..<nrows df]"

fun take_rows :: "nat list \<Rightarrow> column \<Rightarrow> column" where
  "take_rows ks (ObjectCol xs) = ObjectCol (map (\<lambda>i. xs ! i) ks)"
| "take_rows ks (NumCol xs) = NumCol (map (\<lambda>i. xs ! i) ks)"

definition drop_duplicates :: "dataframe \<Rightarrow> dataframe" where
  "drop_duplicates df = map (\<lambda>(n, c). (n, take_rows (kept df) c)) df"

subsection \<open>Column statistics and \<^verbatim>\<open>fillna\<close>\<close>

primrec dropna :: "'a option list \<Rightarrow> 'a list" where
  "dropna [] = []"
| "dropna (x # xs) = (case x of None \<Rightarrow> dropna xs | Some v \<Rightarrow> v # dropna xs)"

fun isnull_any :: "column \<Rightarrow> bool" where
  "isnull_any (ObjectCol xs) = (None \<in> set xs)"
| "isnull_any (NumCol xs) = (None \<in> set xs)"

definition max_count :: "'a list \<Rightarrow> nat" where
  "max_count vs = fold (\<lambda>v m. max (count_list vs v) m) vs 0"

text \<open>
  \<^verbatim>\<open>Series.mode()\<close> drops the missing cells, collects the values that occur most often
  and returns them sorted in ascending order; on a column without any value it is empty.
\<close>

definition mode :: "string option list \<Rightarrow> string list" where
  "mode xs =
     (let vs = dropna xs
      in sort (remdups (filter (\<lambda>v. count_list vs v = max_count vs) vs)))"

text \<open>
  \<^verbatim>\<open>Series.median()\<close> skips the missing cells. It is NaN (here \<open>None\<close>) when no value
  is left. For an odd count it is the middle value of the sorted values. For an even count
  it is the mean of the two middle values, computed in binary64 as their sum divided by
  two: the sum is rounded and may overflow, and it is NaN for the two infinities.
\<close>

definition median :: "float64 option list \<Rightarrow> float64 option" where
  "median xs =
     (let vs = sort (dropna xs); n = length vs
      in if n = 0 then None
         else if odd n then Some (vs ! (n div 2))
         else map_option fhalf (fadd (vs ! (n div 2 - 1)) (vs ! (n div 2))))"

definition fillna :: "'a \<Rightarrow> 'a option list \<Rightarrow> 'a option list" where
  "fillna v xs = map (\<lambda>x. case x of None \<Rightarrow> Some v | Some y \<Rightarrow> Some y) xs"

section \<open>Errors\<close>

text \<open>
  One constructor per raise site of the source and per failure of the libraries that the
  model distinguishes; the messages of the source are not modelled beyond the values that
  they interpolate.
\<close>

datatype error =
    FileNotFoundError string string
  | NoDataToProcess
  | NoDataForReport
  | ChainNotBuilt
  | KeyError
  | AmbiguousTruthValue
  | AttributeError
  | ReadCsvError
  | SweetvizError

section \<open>Imputation of one column\<close>

text \<open>
  The body of the loop of \<^verbatim>\<open>CleanDataHandler.handle\<close> for one column:
  \<^verbatim>\<open>
  if df[col].isnull().any():
      if df[col].dtype == 'object':
          df[col].fillna(df[col].mode()[0], inplace=True)
      else:
          df[col].fillna(df[col].median(), inplace=True)
  \<close>
  \<^verbatim>\<open>mode()[0]\<close> on an empty result raises; filling with a NaN median changes nothing.
\<close>

fun impute :: "column \<Rightarrow> error + column" where
  "impute (ObjectCol xs) =
     (if isnull_any (ObjectCol xs)
      then (case mode xs of [] \<Rightarrow> Inl KeyError | m # ms \<Rightarrow> Inr (ObjectCol (fillna m xs)))
      else Inr (ObjectCol xs))"
| "impute (NumCol xs) =
     (if isnull_any (NumCol xs)
      then (case median xs of None \<Rightarrow> Inr (NumCol xs) | Some m \<Rightarrow> Inr (NumCol (fillna m xs)))
      else Inr (NumCol xs))"

text \<open>
  The loop \<^verbatim>\<open>for col in df.columns\<close> mutates the table column by column. With a label
  that occurs twice, \<^verbatim>\<open>df[col]\<close> is a table, \<^verbatim>\<open>.isnull().any()\<close> a series, and
  its truth value raises. The loop returns the table as far as it was changed, since the
  mutation is in place and survives a raise.
\<close>

fun impute_loop :: "string list \<Rightarrow> dataframe \<Rightarrow> error option \<times> dataframe" where
  "impute_loop names [] = (None, [])"
| "impute_loop names ((n, c) # cs) =
     (if 1 < count_list names n then (Some AmbiguousTruthValue, (n, c) # cs)
      else (case impute c of
              Inl e \<Rightarrow> (Some e, (n, c) # cs)
            | Inr c' \<Rightarrow> (case impute_loop names cs of (r, cs') \<Rightarrow> (r, (n, c') # cs'))))"

definition impute_all :: "dataframe \<Rightarrow> error option \<times> dataframe" where
  "impute_all df = impute_loop (map fst df) df"

section \<open>The context, the objects it refers to and the environment\<close>

text \<open>
  The context \<^verbatim>\<open>data\<close> is a Python dict from strings to object references. The
  handlers mutate the DataFrame object itself (\<^verbatim>\<open>inplace=True\<close>), so the objects live
  in a store and the dict holds addresses: two keys may refer to one object. The file
  system maps a path to what is there; a file is characterised by what
  \<^verbatim>\<open>pd.read_csv\<close> makes of it. Whether the report library accepts a table is a
  property of the environment (\<open>renders\<close>). The log is the list of messages written by
  \<^verbatim>\<open>logging.info\<close>.
\<close>

type_synonym addr = nat

datatype pyobj = DataFrame dataframe | OtherObject

datatype pyval = PyNone | Ref addr

datatype fsnode = CsvFile dataframe | ReportFile dataframe | OtherFile | Directory

datatype logmsg =
    ReadingFile string
  | DataLoaded
  | DroppingDuplicates
  | HandlingMissing
  | DataCleaned
  | GeneratingReport
  | ReportSaved string
  | ChainStarted

record world =
  data :: "string \<rightharpoonup> pyval"
  heap :: "addr \<Rightarrow> pyobj"
  next_addr :: addr
  fs :: "string \<rightharpoonup> fsnode"
  renders :: "dataframe \<Rightarrow> bool"
  log :: "logmsg list"

datatype outcome = Returns | Raises error

text \<open>\<^verbatim>\<open>os.path.join\<close> of two components on a POSIX system.\<close>

definition path_join :: "string \<Rightarrow> string \<Rightarrow> string" where
  "path_join a b =
     (if (case b of [] \<Rightarrow> False | c # cs \<Rightarrow> c = CHR ''/'') then b
      else if a = [] \<or> last a = CHR ''/'' then a @ b
      else a @ ''/'' @ b)"

section \<open>The handlers\<close>

text \<open>
  Each concrete \<^verbatim>\<open>handle\<close> is its own statements followed by
  \<^verbatim>\<open>return super().handle(data)\<close>. The statements before that return are modelled
  first, one function per class; they yield the world they leave behind, also when they
  raise.
\<close>

definition open_csv :: "string \<Rightarrow> string \<Rightarrow> world \<Rightarrow> outcome \<times> world" where
  "open_csv file_path file_name w =
     (let dataset_path = path_join file_path file_name
      in case fs w dataset_path of
           None \<Rightarrow> (Raises (FileNotFoundError file_name file_path), w)
         | Some node \<Rightarrow>
             (let w1 = w\<lparr>log := log w @ [ReadingFile file_name]\<rparr>
              in case node of
                   CsvFile df \<Rightarrow>
                     (Returns,
                      w1\<lparr>heap := (heap w1)(next_addr w1 := DataFrame df),
                         next_addr := Suc (next_addr w1),
                         data := (data w1)(''df'' \<mapsto> Ref (next_addr w1)),
                         log := log w1 @ [DataLoaded]\<rparr>)
                 | _ \<Rightarrow> (Raises ReadCsvError, w1)))"

definition clean_data :: "world \<Rightarrow> outcome \<times> world" where
  "clean_data w =
     (case data w ''df'' of
        None \<Rightarrow> (Raises NoDataToProcess, w)
      | Some PyNone \<Rightarrow> (Raises NoDataToProcess, w)
      | Some (Ref a) \<Rightarrow>
          (let w1 = w\<lparr>log := log w @ [DroppingDuplicates]\<rparr>
           in case heap w1 a of
                OtherObject \<Rightarrow> (Raises AttributeError, w1)
              | DataFrame df \<Rightarrow>
                  (let w2 = w1\<lparr>heap := (heap w1)(a := DataFrame (drop_duplicates df)),
                              log := log w1 @ [HandlingMissing]\<rparr>
                   in case impute_all (drop_duplicates df) of
                        (Some e, df') \<Rightarrow>
                          (Raises e, w2\<lparr>heap := (heap w2)(a := DataFrame df')\<rparr>)
                      | (None, df') \<Rightarrow>
                          (Returns,
                           w2\<lparr>heap := (heap w2)(a := DataFrame df'),
                              data := (data w2)(''df'' \<mapsto> Ref a),
                              log := log w2 @ [DataCleaned]\<rparr>))))"

definition sweetviz :: "string \<Rightarrow> world \<Rightarrow> outcome \<times> world" where
  "sweetviz output_dir w =
     (case data w ''df'' of
        None \<Rightarrow> (Raises NoDataForReport, w)
      | Some PyNone \<Rightarrow> (Raises NoDataForReport, w)
      | Some (Ref a) \<Rightarrow>
          (let w1 = w\<lparr>log := log w @ [GeneratingReport]\<rparr>;
               report_path = path_join output_dir ''sweetviz_report.html''
           in case heap w1 a of
                OtherObject \<Rightarrow> (Raises SweetvizError, w1)
              | DataFrame df \<Rightarrow>
                  (if renders w1 df
                   then (Returns,
                         w1\<lparr>fs := (fs w1)(report_path \<mapsto> ReportFile df),
                            log := log w1 @ [ReportSaved report_path]\<rparr>)
                   else (Raises SweetvizError, w1))))"

text \<open>
  A handler object holds its parameters and \<^verbatim>\<open>next_handler\<close>. A chain built with
  \<^verbatim>\<open>set_next\<close> is finite; a handler linked back to an earlier one is not a value of
  this type.
\<close>

datatype handler =
    OpenCsvHandler string string "handler option"
  | CleanDataHandler "handler option"
  | SweetvizHandler string "handler option"

fun next_handler :: "handler \<Rightarrow> handler option" where
  "next_handler (OpenCsvHandler file_path file_name nxt) = nxt"
| "next_handler (CleanDataHandler nxt) = nxt"
| "next_handler (SweetvizHandler output_dir nxt) = nxt"

text \<open>The statements of a handler's own \<^verbatim>\<open>handle\<close>, by class.\<close>

fun own_work :: "handler \<Rightarrow> world \<Rightarrow> outcome \<times> world" where
  "own_work (OpenCsvHandler file_path file_name nxt) w = open_csv file_path file_name w"
| "own_work (CleanDataHandler nxt) w = clean_data w"
| "own_work (SweetvizHandler output_dir nxt) w = sweetviz output_dir w"

text \<open>
  \<open>super_handle\<close> is \<^verbatim>\<open>Handler.handle\<close>, the body of the abstract method that the
  subclasses call; \<open>Returns\<close> stands for returning \<^verbatim>\<open>data\<close>, the dict of the world.
\<close>

fun handle :: "handler \<Rightarrow> world \<Rightarrow> outcome \<times> world"
  and super_handle :: "handler option \<Rightarrow> world \<Rightarrow> outcome \<times> world" where
  "super_handle None w = (Returns, w)"
| "super_handle (Some h) w = handle h w"
| "handle (OpenCsvHandler file_path file_name nxt) w =
     (case open_csv file_path file_name w of
        (Raises e, w') \<Rightarrow> (Raises e, w')
      | (Returns, w') \<Rightarrow> super_handle nxt w')"
| "handle (CleanDataHandler nxt) w =
     (case clean_data w of
        (Raises e, w') \<Rightarrow> (Raises e, w')
      | (Returns, w') \<Rightarrow> super_handle nxt w')"
| "handle (SweetvizHandler output_dir nxt) w =
     (case sweetviz output_dir w of
        (Raises e, w') \<Rightarrow> (Raises e, w')
      | (Returns, w') \<Rightarrow> super_handle nxt w')"

section \<open>\<^verbatim>\<open>EDAFlow\<close>\<close>

record edaflow =
  config :: "string \<rightharpoonup> string"
  chain :: "handler option"

text \<open>
  \<^verbatim>\<open>chain\<close> is \<^verbatim>\<open>None\<close> from the constructor on and the head handler once
  \<^verbatim>\<open>build_chain\<close> has assigned it.
\<close>

text \<open>
  \<^verbatim>\<open>execute\<close> checks that the chain exists, logs, and calls the head handler with a new
  empty dict.
\<close>

definition execute :: "edaflow \<Rightarrow> world \<Rightarrow> outcome \<times> world" where
  "execute flow w =
     (case chain flow of
        None \<Rightarrow> (Raises ChainNotBuilt, w)
      | Some h \<Rightarrow> handle h (w\<lparr>log := log w @ [ChainStarted], data := Map.empty\<rparr>))"

section \<open>Reference notions for the statements\<close>

text \<open>
  The notions below are not taken from the source. They say in their own terms what the
  statistics are meant to be, and the theorems compare them with \<open>mode\<close> and \<open>median\<close>.
\<close>



text \<open>
  The median by linear interpolation: the value at the fractional position
  \<open>(n - 1) / 2\<close> of the sorted values, interpolated between its two neighbours.
\<close>

definition spec_median :: "rat list \<Rightarrow> rat" where
  "spec_median vs =
     (let s = sort vs;
          p = (of_nat (length s) - 1) / 2;
          lo = nat \<lfloor>p\<rfloor>;
          hi = nat \<lceil>p\<rceil>
      in s ! lo + (p - of_nat lo) * (s ! hi - s ! lo))"





text \<open>
  The values for which the binary64 median is NaN: none of them is finite, and minus
  infinity occurs as often as plus infinity. No value at all is the case of no occurrence.
\<close>

definition nan_median :: "float64 list \<Rightarrow> bool" where
  "nan_median vs =
     ((\<forall>v \<in> set vs. v = NInf \<or> v = PInf) \<and> count_list vs NInf = count_list vs PInf)"


text \<open>
  A column that the imputation cannot fill: a numeric column with missing cells whose
  median is NaN.
\<close>

definition unfillable :: "column \<Rightarrow> bool" where
  "unfillable c =
     (case c of ObjectCol xs \<Rightarrow> False | NumCol xs \<Rightarrow> None \<in> set xs \<and> nan_median (dropna xs))"

section \<open>Invariants of the context\<close>

text \<open>
  The table key refers to an object; and, more, that object is a table.
\<close>

definition has_ref :: "world \<Rightarrow> bool" where
  "has_ref w = (\<exists>a. data w ''df'' = Some (Ref a))"

definition has_table :: "world \<Rightarrow> bool" where
  "has_table w = (\<exists>a df. data w ''df'' = Some (Ref a) \<and> heap w a = DataFrame df)"

section \<open>Example worlds\<close>

text \<open>
  An environment with an empty context, an empty file system and a report library that
  accepts every table; and the same with one table, at address 0, under the table key.
\<close>

definition empty_world :: world where
  "empty_world =
     \<lparr>data = Map.empty, heap = (\<lambda>a. OtherObject), next_addr = 0, fs = Map.empty,
      renders = (\<lambda>df. True), log = []\<rparr>"

definition world_with :: "dataframe \<Rightarrow> world" where
  "world_with df =
     \<lparr>data = [''df'' \<mapsto> Ref 0], heap = (\<lambda>a. OtherObject)(0 := DataFrame df), next_addr = 1,
      fs = Map.empty, renders = (\<lambda>df. True), log = []\<rparr>"

section \<open>Rounding to binary64\<close>

lemma pow2_pos: "0 < pow2 k"
  by (simp add: pow2_def)

lemma pow2_strict_mono: "k < l \<Longrightarrow> pow2 k < pow2 l"
  unfolding pow2_def by (rule power_int_strict_increasing) simp_all

lemma pow2_mono: "k \<le> l \<Longrightarrow> pow2 k \<le> pow2 l"
  unfolding pow2_def by (rule power_int_increasing) simp_all

lemma bitlen_pow2_bounds:
  assumes "0 < x"
  shows "pow2 (bitlen x - 1) \<le> of_int x" and "of_int x < pow2 (bitlen x)"
proof -
  from bitlen_bounds[OF assms] have lo: "2 ^ nat (bitlen x - 1) \<le> x" and hi: "x < 2 ^ nat (bitlen x)"
    by simp_all
  have b1: "1 \<le> bitlen x" using assms by (auto simp: bitlen_alt_def)
  have "pow2 (bitlen x - 1) = of_int (2 ^ nat (bitlen x - 1))"
    using b1 by (simp add: pow2_def power_int_def)
  also have "\<dots> \<le> of_int x" using lo by (simp only: of_int_le_iff)
  finally show "pow2 (bitlen x - 1) \<le> of_int x" .
  have "(of_int x :: rat) < of_int (2 ^ nat (bitlen x))" using hi by (simp only: of_int_less_iff)
  also have "\<dots> = pow2 (bitlen x)" using b1 by (simp add: pow2_def power_int_def)
  finally show "of_int x < pow2 (bitlen x)" .
qed

lemma pow2_diff: "pow2 (k - l) = pow2 k / pow2 l"
  unfolding pow2_def by (rule power_int_diff) simp

lemma ilog2_bounds:
  assumes "0 < q"
  shows "pow2 (ilog2 q) \<le> q \<and> q < pow2 (ilog2 q + 1)"
proof -
  obtain p d where pd: "quotient_of q = (p, d)" by (cases "quotient_of q")
  then have d: "0 < d" by (rule quotient_of_denom_pos)
  have q: "q = of_int p / of_int d" using pd by (rule quotient_of_div)
  have p: "0 < p" using assms d unfolding q by (simp add: zero_less_divide_iff)
  define k where "k = bitlen p - bitlen d"
  note P = bitlen_pow2_bounds[OF p] and D = bitlen_pow2_bounds[OF d]
  have dpos: "(0::rat) < of_int d" using d by simp
  have "q < pow2 (bitlen p) / pow2 (bitlen d - 1)"
  proof -
    have "q < pow2 (bitlen p) / of_int d" unfolding q using P(2) dpos by (simp add: divide_strict_right_mono)
    also have "\<dots> \<le> pow2 (bitlen p) / pow2 (bitlen d - 1)"
      using D(1) pow2_pos[of "bitlen p"] pow2_pos[of "bitlen d - 1"] by (simp add: frac_le)
    finally show ?thesis .
  qed
  also have "\<dots> = pow2 (k + 1)" unfolding k_def pow2_diff[symmetric] by (simp add: algebra_simps)
  finally have up: "q < pow2 (k + 1)" .
  have "pow2 (k - 1) = pow2 (bitlen p - 1) / pow2 (bitlen d)"
    unfolding k_def pow2_diff[symmetric] by (simp add: algebra_simps)
  also have "\<dots> \<le> of_int p / pow2 (bitlen d)"
    using P(1) pow2_pos[of "bitlen d"] by (simp add: divide_right_mono)
  also have "\<dots> \<le> q" unfolding q using D(2) dpos p by (simp add: frac_le)
  finally have low: "pow2 (k - 1) \<le> q" .
  have "ilog2 q = (if pow2 k \<le> q then k else k - 1)"
    unfolding ilog2_def pd k_def by (simp add: Let_def)
  then show ?thesis using up low by (auto simp: not_le)
qed

lemma ilog2_unique:
  assumes "pow2 k \<le> q" "q < pow2 (k + 1)" shows "ilog2 q = k"
proof -
  have qpos: "0 < q" using assms(1) pow2_pos[of k] by simp
  from ilog2_bounds[OF qpos] have b: "pow2 (ilog2 q) \<le> q" "q < pow2 (ilog2 q + 1)" by simp_all
  have "\<not> ilog2 q < k"
  proof
    assume "ilog2 q < k"
    then have "pow2 (ilog2 q + 1) \<le> pow2 k" by (intro pow2_mono) simp
    with b(2) assms(1) show False by simp
  qed
  moreover have "\<not> k < ilog2 q"
  proof
    assume "k < ilog2 q"
    then have "pow2 (k + 1) \<le> pow2 (ilog2 q)" by (intro pow2_mono) simp
    with b(1) assms(2) show False by simp
  qed
  ultimately show ?thesis by simp
qed

lemma round_half_even_lower: "of_int n \<le> t \<Longrightarrow> n \<le> round_half_even t"
proof -
  assume "of_int n \<le> t"
  then have "n \<le> \<lfloor>t\<rfloor>" by (simp add: le_floor_iff)
  then show ?thesis by (auto simp: round_half_even_def Let_def)
qed

lemma round_half_even_upper: "t \<le> of_int n \<Longrightarrow> round_half_even t \<le> n"
proof -
  assume t: "t \<le> of_int n"
  show ?thesis
  proof (cases "t = of_int \<lfloor>t\<rfloor>")
    case True
    then have "round_half_even t = \<lfloor>t\<rfloor>" by (simp add: round_half_even_def Let_def)
    moreover have "\<lfloor>t\<rfloor> \<le> n" using t by (simp add: floor_le_iff)
    ultimately show ?thesis by simp
  next
    case False
    then have "of_int \<lfloor>t\<rfloor> \<noteq> t" by (rule not_sym)
    then have "of_int \<lfloor>t\<rfloor> < t"
      using of_int_floor_le[of t] by (rule order.not_eq_order_implies_strict)
    then have "of_int \<lfloor>t\<rfloor> < (of_int n :: rat)" using t by simp
    then have "\<lfloor>t\<rfloor> < n" by (simp only: of_int_less_iff)
    then show ?thesis by (auto simp: round_half_even_def Let_def)
  qed
qed

lemma pow2_add: "pow2 (k + l) = pow2 k * pow2 l"
  unfolding pow2_def by (rule power_int_add) simp

lemma pow2_53: "pow2 53 = of_int (2 ^ 53)"
  by (simp add: pow2_def)

lemma pow2_52: "pow2 52 = of_int (2 ^ 52)"
  by (simp add: pow2_def)

text \<open>
  The overflow test of \<open>round64\<close> is the comparison of the rounded magnitude with
  \<open>2^1024\<close>.
\<close>

lemma round64_overflow_test:
  assumes "0 < a"
  defines "e \<equiv> max (ilog2 a - 52) (- 1074)"
  defines "m \<equiv> round_half_even (a / pow2 e)"
  shows "(971 < e \<or> (e = 971 \<and> m = 2 ^ 53)) \<longleftrightarrow> pow2 1024 \<le> of_int m * pow2 e"
proof -
  from ilog2_bounds[OF assms(1)] have lo: "pow2 (ilog2 a) \<le> a" and hi: "a < pow2 (ilog2 a + 1)"
    by simp_all
  have epos: "0 < pow2 e" by (rule pow2_pos)
  have e_ge: "ilog2 a - 52 \<le> e" by (simp add: e_def)
  have "a < pow2 (53 + e)"
  proof -
    have "pow2 (ilog2 a + 1) \<le> pow2 (53 + e)" using e_ge by (intro pow2_mono) simp
    with hi show ?thesis by simp
  qed
  also have "\<dots> = pow2 53 * pow2 e" by (rule pow2_add)
  finally have "a / pow2 e < pow2 53" using epos by (simp only: pos_divide_less_eq)
  then have "a / pow2 e \<le> of_int (2 ^ 53)" unfolding pow2_53 by (rule less_imp_le)
  then have m_le: "m \<le> 2 ^ 53" unfolding m_def by (rule round_half_even_upper)
  then have m_le': "of_int m \<le> pow2 53" unfolding pow2_53 by (simp only: of_int_le_iff)
  have m_ge: "pow2 52 \<le> of_int m" if "e = ilog2 a - 52"
  proof -
    have "pow2 52 * pow2 e = pow2 (52 + e)" by (rule pow2_add[symmetric])
    also have "52 + e = ilog2 a" using that by simp
    finally have "pow2 52 * pow2 e \<le> a" using lo by simp
    then have "pow2 52 \<le> a / pow2 e" using epos by (simp only: pos_le_divide_eq)
    then have "of_int (2 ^ 52) \<le> a / pow2 e" unfolding pow2_52 .
    then have "2 ^ 52 \<le> m" unfolding m_def by (rule round_half_even_lower)
    then show ?thesis unfolding pow2_52 by (simp only: of_int_le_iff)
  qed
  have val: "of_int m * pow2 e \<le> pow2 53 * pow2 e"
    using m_le' epos by (intro mult_right_mono) simp_all
  show ?thesis
  proof (cases "971 < e")
    case True
    then have en: "e = ilog2 a - 52" by (simp add: e_def max_def split: if_splits)
    have "pow2 1024 \<le> pow2 (52 + e)" using True by (intro pow2_mono) simp
    also have "\<dots> = pow2 52 * pow2 e" by (rule pow2_add)
    also have "\<dots> \<le> of_int m * pow2 e"
      using m_ge[OF en] epos by (intro mult_right_mono) simp_all
    finally show ?thesis using True by simp
  next
    case False
    show ?thesis
    proof (cases "e = 971")
      case True
      have "pow2 1024 = pow2 (53 + e)" unfolding True by simp
      also have "\<dots> = pow2 53 * pow2 e" by (rule pow2_add)
      finally have "pow2 1024 \<le> of_int m * pow2 e \<longleftrightarrow> pow2 53 \<le> of_int m"
        using epos by (simp only: mult_le_cancel_right_pos)
      also have "\<dots> \<longleftrightarrow> 2 ^ 53 \<le> m" unfolding pow2_53 by (simp only: of_int_le_iff)
      also have "\<dots> \<longleftrightarrow> m = 2 ^ 53" using m_le by auto
      finally show ?thesis using True by simp
    next
      case False
      with \<open>\<not> 971 < e\<close> have "53 + e < 1024" by simp
      then have "pow2 (53 + e) < pow2 1024" by (rule pow2_strict_mono)
      moreover have "pow2 53 * pow2 e = pow2 (53 + e)" by (rule pow2_add[symmetric])
      ultimately have "of_int m * pow2 e < pow2 1024" using val by simp
      with False \<open>\<not> 971 < e\<close> show ?thesis by simp
    qed
  qed
qed

text \<open>
  The median of the binary64 numbers nearest to 0.1 and 0.2 is the rounded one,
  0.15000000000000002, not their rational mean.
\<close>

lemma median_is_rounded:
  "median [Some (Finite (3602879701896397 / 36028797018963968)),
           Some (Finite (3602879701896397 / 18014398509481984)), None]
     = Some (Finite (1351079888211149 / 9007199254740992)) \<and>
   spec_median [3602879701896397 / 36028797018963968, 3602879701896397 / 18014398509481984]
     = 10808639105689191 / 72057594037927936"
  by code_simp

text \<open>The sum of two large numbers overflows, and the median is plus infinity.\<close>

lemma round64_overflow: "round64 (5 * 2 ^ 1022) = PInf"
proof -
  have "ilog2 (5 * 2 ^ 1022) = 1024"
    by (rule ilog2_unique) (simp_all add: pow2_def)
  then show ?thesis by (simp add: round64_def)
qed

lemma median_overflows:
  "median [Some (Finite (2 ^ 1023)), Some (Finite (3 * 2 ^ 1022)), None] = Some PInf"
proof -
  define a b c :: rat where "a = 2 ^ 1023" and "b = 3 * 2 ^ 1022" and "c = 5 * 2 ^ 1022"
  have le: "a \<le> b" and sum: "a + b = c" by (simp_all add: a_def b_def c_def)
  have r: "round64 c = PInf" unfolding c_def by (rule round64_overflow)
  have "median [Some (Finite a), Some (Finite b), None] = Some PInf"
    using le by (simp add: median_def sum r)
  then show ?thesis unfolding a_def b_def .
qed

lemma round64_examples:
  "round64 1 = Finite 1 \<and> round64 (5 / 2) = Finite (5 / 2) \<and>
   round64 (1 / 10) = Finite (3602879701896397 / 36028797018963968) \<and>
   round64 (2 ^ 53 + 1) = Finite (2 ^ 53) \<and> round64 (2 ^ 53 + 3) = Finite (2 ^ 53 + 4) \<and>
   round64 (- (1 / 3)) = Finite (- (6004799503160661 / 18014398509481984))"
  by code_simp

section \<open>Deduplication keeps the first occurrences\<close>

lemma first_occurrences:
  "map f (filter (\<lambda>i. f i \<notin> set (map f [0..<i])) [0..<n]) = rev (remdups (rev (map f [0..<n])))"
proof (induction n)
  case 0
  show ?case by simp
next
  case (Suc n)
  show ?case
  proof (cases "f n \<in> set (map f [0..<n])")
    case True
    then show ?thesis using Suc by simp
  next
    case False
    then show ?thesis using Suc by simp
  qed
qed

lemma cell_at_take_rows: "k < length ks \<Longrightarrow> cell_at (take_rows ks c) k = cell_at c (ks ! k)"
  by (cases c) simp_all

lemma col_len_take_rows: "col_len (take_rows ks c) = length ks"
  by (cases c) simp_all

lemma nrows_drop_duplicates: "df \<noteq> [] \<Longrightarrow> nrows (drop_duplicates df) = length (kept df)"
  by (cases df) (auto simp: nrows_def drop_duplicates_def col_len_take_rows)

lemma kept_Nil: "kept [] = []"
  by (simp add: kept_def nrows_def)

lemma row_drop_duplicates:
  "k < length (kept df) \<Longrightarrow> row (drop_duplicates df) k = row df (kept df ! k)"
  by (simp add: row_def drop_duplicates_def cell_at_take_rows split_def)

lemma rows_drop_duplicates: "rows (drop_duplicates df) = map (row df) (kept df)"
proof (cases "df = []")
  case True
  then show ?thesis by (simp add: rows_def drop_duplicates_def kept_Nil nrows_def)
next
  case False
  then have n: "nrows (drop_duplicates df) = length (kept df)" by (rule nrows_drop_duplicates)
  show ?thesis unfolding rows_def n
    by (rule nth_equalityI) (simp_all add: row_drop_duplicates)
qed

lemma rows_drop_duplicates_remdups:
  "rows (drop_duplicates df) = rev (remdups (rev (rows df)))"
proof -
  have "rows (drop_duplicates df) = map (row df) (kept df)" by (rule rows_drop_duplicates)
  also have "\<dots> = rev (remdups (rev (rows df)))"
    unfolding kept_def duplicated_def rows_def by (rule first_occurrences)
  finally show ?thesis .
qed

lemma well_formed_drop_duplicates: "well_formed (drop_duplicates df)"
  by (cases df) (auto simp: well_formed_def drop_duplicates_def nrows_def col_len_take_rows list_all_iff)

lemma take_rows_all: "col_len c = n \<Longrightarrow> take_rows [0..<n] c = c"
  by (cases c) (auto simp: map_nth)

lemma kept_distinct: 
  assumes "distinct (rows df)" shows "kept df = [0..<nrows df]"
proof -
  have "\<not> duplicated df i" if "i < nrows df" for i
  proof
    assume "duplicated df i"
    then obtain j where j: "j < i" "row df j = row df i" by (auto simp: duplicated_def)
    from assms have "inj_on (row df) {0..<nrows df}" by (simp add: rows_def distinct_map)
    then have "j = i" using j that by (intro inj_onD[of "row df" "{0..<nrows df}"]) simp_all
    with j show False by simp
  qed
  then show ?thesis by (simp add: kept_def)
qed

lemma drop_duplicates_id:
  assumes "distinct (rows df)" "well_formed df" shows "drop_duplicates df = df"
proof -
  have "map (\<lambda>(n, c). (n, take_rows [0..<nrows df] c)) df = map (\<lambda>x. x) df"
    using assms(2) by (intro map_cong) (auto simp: well_formed_def list_all_iff take_rows_all)
  then show ?thesis by (simp add: drop_duplicates_def kept_distinct[OF assms(1)])
qed

section \<open>Properties of the imputation\<close>

lemma fillna_no_None: "None \<notin> set (fillna v xs)"
  by (auto simp: fillna_def split: option.splits)

lemma fillna_id: "None \<notin> set xs \<Longrightarrow> fillna v xs = xs"
proof -
  have "(case x of None \<Rightarrow> Some v | Some y \<Rightarrow> Some y) = x" if "x \<in> set xs" "None \<notin> set xs" for x
    by (cases x) (use that in auto)
  then show "None \<notin> set xs \<Longrightarrow> fillna v xs = xs"
    unfolding fillna_def by (intro map_idI) simp
qed

lemma length_fillna: "length (fillna v xs) = length xs"
  by (simp add: fillna_def)

lemma sort_eq_Nil: "sort vs = [] \<longleftrightarrow> vs = []"
  by (metis length_sort length_0_conv)

lemma dropna_Nil_iff: "dropna xs = [] \<longleftrightarrow> (\<forall>x\<in>set xs. x = None)"
  by (induction xs) (auto split: option.splits)

lemma impute_idem: "impute c = Inr c' \<Longrightarrow> impute c' = Inr c'"
  by (cases c) (auto simp: fillna_no_None split: if_splits list.splits option.splits)

lemma impute_len: "impute c = Inr c' \<Longrightarrow> col_len c' = col_len c"
  by (cases c) (auto simp: length_fillna split: if_splits list.splits option.splits)

lemma impute_loop_names:
  "impute_loop names cs = (r, cs') \<Longrightarrow> map fst cs' = map fst cs"
  by (induction names cs arbitrary: r cs' rule: impute_loop.induct)
     (auto split: if_splits sum.splits prod.splits)

lemma impute_loop_success:
  "impute_loop names cs = (None, cs') \<Longrightarrow>
     list_all2 (\<lambda>(n, c) (n', c'). n' = n \<and> impute c = Inr c') cs cs'"
  by (induction names cs arbitrary: cs' rule: impute_loop.induct)
     (auto split: if_splits sum.splits prod.splits)

lemma impute_loop_idem:
  "impute_loop names cs = (None, cs') \<Longrightarrow> impute_loop names cs' = (None, cs')"
  by (induction names cs arbitrary: cs' rule: impute_loop.induct)
     (auto split: if_splits sum.splits prod.splits simp: impute_idem)

lemma impute_all_idem: "impute_all df = (None, df') \<Longrightarrow> impute_all df' = (None, df')"
  unfolding impute_all_def using impute_loop_names[of "map fst df" df None df']
  by (simp add: impute_loop_idem)

section \<open>The statistics meet their reference notions\<close>

lemma fold_max_ge: "a \<le> fold (\<lambda>v m. max (f v) m) xs (a::nat)"
proof (induction xs arbitrary: a)
  case Nil
  show ?case by simp
next
  case (Cons x xs)
  have "a \<le> max (f x) a" by simp
  also have "\<dots> \<le> fold (\<lambda>v m. max (f v) m) xs (max (f x) a)" by (rule Cons.IH)
  finally show ?case by simp
qed

lemma fold_max_upper: "v \<in> set xs \<Longrightarrow> f v \<le> fold (\<lambda>v m. max (f v) m) xs (a::nat)"
proof (induction xs arbitrary: a)
  case Nil
  then show ?case by simp
next
  case (Cons x xs)
  show ?case
  proof (cases "v = x")
    case True
    have "f x \<le> max (f x) a" by simp
    also have "\<dots> \<le> fold (\<lambda>v m. max (f v) m) xs (max (f x) a)" by (rule fold_max_ge)
    finally show ?thesis using True by simp
  next
    case False
    with Cons.prems have "v \<in> set xs" by simp
    then show ?thesis using Cons.IH by simp
  qed
qed

lemma fold_max_attained:
  "fold (\<lambda>v m. max (f v) m) xs (a::nat) = a \<or> (\<exists>v \<in> set xs. fold (\<lambda>v m. max (f v) m) xs a = f v)"
proof (induction xs arbitrary: a)
  case Nil
  show ?case by simp
next
  case (Cons x xs)
  from Cons.IH[of "max (f x) a"] show ?case by (auto simp: max_def split: if_splits)
qed

lemma count_le_max_count: "v \<in> set vs \<Longrightarrow> count_list vs v \<le> max_count vs"
  unfolding max_count_def by (rule fold_max_upper)

lemma max_count_attained: assumes "vs \<noteq> []" shows "\<exists>v \<in> set vs. count_list vs v = max_count vs"
proof -
  from assms obtain x where x: "x \<in> set vs" by (cases vs) auto
  then have "0 < count_list vs x" using count_list_0_iff[of vs x] by simp
  with count_le_max_count[OF x] have pos: "max_count vs \<noteq> 0" by simp
  from fold_max_attained[of "count_list vs" vs 0] pos show ?thesis
    unfolding max_count_def by auto
qed

lemma mode_set: "set (mode xs) = {v \<in> set (dropna xs). count_list (dropna xs) v = max_count (dropna xs)}"
  by (auto simp: mode_def Let_def)

lemma mode_Nil: "mode xs = [] \<longleftrightarrow> dropna xs = []"
proof
  assume "mode xs = []"
  then have "set (mode xs) = {}" by simp
  then show "dropna xs = []" using max_count_attained[of "dropna xs"] unfolding mode_set by auto
next
  assume "dropna xs = []" then show "mode xs = []" by (simp add: mode_def)
qed



section \<open>The median in binary64\<close>

lemma fadd_None_iff:
  "fadd a b = None \<longleftrightarrow> (a = NInf \<and> b = PInf) \<or> (a = PInf \<and> b = NInf)"
  by (cases a; cases b) simp_all

lemma le_NInf: "x \<le> NInf \<longleftrightarrow> x = NInf"
  by (cases x) simp_all

lemma PInf_le: "PInf \<le> x \<longleftrightarrow> x = PInf"
  by (cases x) simp_all

lemma count_list_sort: "count_list (sort vs) x = count_list vs x"
  by (metis count_mset mset_sort)

lemma two_valued_sorted:
  "sorted s \<Longrightarrow> \<forall>v \<in> set s. v = NInf \<or> v = PInf \<Longrightarrow>
     s = replicate (count_list s NInf) NInf @ replicate (count_list s PInf) PInf"
proof (induction s)
  case Nil
  show ?case by simp
next
  case (Cons x s)
  from Cons.prems have sorted: "sorted s" and two: "\<forall>v \<in> set s. v = NInf \<or> v = PInf"
    and low: "\<forall>y \<in> set s. x \<le> y" by simp_all
  note IH = Cons.IH[OF sorted two]
  from Cons.prems(2) have "x = NInf \<or> x = PInf" by simp
  then show ?case
  proof
    assume x: "x = NInf"
    show ?thesis using IH unfolding x by simp
  next
    assume x: "x = PInf"
    from low have "\<forall>y \<in> set s. y = PInf" unfolding x by (simp add: PInf_le)
    then have "NInf \<notin> set s" by auto
    then have "count_list s NInf = 0" by (simp add: count_list_0_iff)
    with IH show ?thesis unfolding x by simp
  qed
qed

lemma median_None_iff: "median xs = None \<longleftrightarrow> nan_median (dropna xs)"
proof
  define s where "s = sort (dropna xs)"
  define k where "k = length s div 2"
  assume none: "median xs = None"
  show "nan_median (dropna xs)"
  proof (cases "length s = 0")
    case True
    then have "dropna xs = []" by (simp add: s_def)
    then show ?thesis by (simp add: nan_median_def)
  next
    case False
    with none have ev: "even (length s)"
      unfolding median_def Let_def s_def[symmetric] by (auto split: if_splits)
    then have n: "length s = 2 * k" unfolding k_def by simp
    with False have kpos: "0 < k" by (cases k) simp_all
    from none False ev have "fadd (s ! (k - 1)) (s ! k) = None"
      unfolding median_def Let_def s_def[symmetric] k_def[symmetric] by simp
    then have mid: "(s ! (k - 1) = NInf \<and> s ! k = PInf) \<or> (s ! (k - 1) = PInf \<and> s ! k = NInf)"
      by (simp add: fadd_None_iff)
    have srt: "sorted s" by (simp add: s_def)
    have "s ! (k - 1) \<le> s ! k" using srt n kpos by (intro sorted_nth_mono) simp_all
    with mid have lo: "s ! (k - 1) = NInf" and hi: "s ! k = PInf" by auto
    have two: "\<forall>v \<in> set s. v = NInf \<or> v = PInf"
    proof
      fix v assume "v \<in> set s"
      then obtain i where i: "i < length s" "v = s ! i" by (auto simp: in_set_conv_nth)
      show "v = NInf \<or> v = PInf"
      proof (cases "i \<le> k - 1")
        case True
        then have "s ! i \<le> s ! (k - 1)" using srt n kpos by (intro sorted_nth_mono) simp_all
        then show ?thesis using lo i by (simp add: le_NInf)
      next
        case False
        then have "s ! k \<le> s ! i" using srt i by (intro sorted_nth_mono) simp_all
        then show ?thesis using hi i by (simp add: PInf_le)
      qed
    qed
    define a where "a = count_list s NInf"
    define b where "b = count_list s PInf"
    have shape: "s = replicate a NInf @ replicate b PInf"
      unfolding a_def b_def using srt two by (rule two_valued_sorted)
    have len: "a + b = 2 * k" using n by (subst (asm) shape) simp
    have "k \<le> a"
    proof (rule ccontr)
      assume "\<not> k \<le> a"
      then have "s ! (k - 1) = PInf" using len kpos by (subst shape) (simp add: nth_append)
      with lo show False by simp
    qed
    moreover have "a \<le> k"
    proof (rule ccontr)
      assume "\<not> a \<le> k"
      then have "s ! k = NInf" by (subst shape) (simp add: nth_append)
      with hi show False by simp
    qed
    ultimately have "a = b" using len by simp
    then have "count_list (dropna xs) NInf = count_list (dropna xs) PInf"
      unfolding a_def b_def s_def by (simp add: count_list_sort)
    moreover have "\<forall>v \<in> set (dropna xs). v = NInf \<or> v = PInf" using two by (simp add: s_def)
    ultimately show ?thesis by (simp add: nan_median_def)
  qed
next
  define s where "s = sort (dropna xs)"
  define c where "c = count_list s NInf"
  assume nm: "nan_median (dropna xs)"
  then have two: "\<forall>v \<in> set s. v = NInf \<or> v = PInf" by (simp add: nan_median_def s_def)
  from nm have cnt: "count_list s PInf = c"
    unfolding c_def s_def by (simp add: nan_median_def count_list_sort)
  have "s = replicate (count_list s NInf) NInf @ replicate (count_list s PInf) PInf"
    using two by (intro two_valued_sorted) (simp_all add: s_def)
  then have shape: "s = replicate c NInf @ replicate c PInf" unfolding cnt c_def[symmetric] .
  show "median xs = None"
  proof (cases "c = 0")
    case True
    with shape have "s = []" by simp
    then show ?thesis unfolding median_def Let_def s_def[symmetric] by simp
  next
    case False
    have len: "length s = 2 * c" by (subst shape) simp
    have lo: "s ! (c - 1) = NInf" using False by (subst shape) (simp add: nth_append)
    have hi: "s ! c = PInf" using False by (subst shape) (simp add: nth_append)
    show ?thesis unfolding median_def Let_def s_def[symmetric] len using False lo hi by simp
  qed
qed










lemma impute_unfillable:
  assumes "impute c = Inr c'" shows "if unfillable c then c' = c else \<not> isnull_any c'"
proof (cases c)
  case (ObjectCol xs)
  with assms show ?thesis
    by (auto simp: unfillable_def fillna_no_None split: if_splits list.splits)
next
  case (NumCol xs)
  show ?thesis
  proof (cases "median xs")
    case None
    then have "nan_median (dropna xs)" by (simp add: median_None_iff)
    with assms NumCol None show ?thesis by (auto simp: unfillable_def split: if_splits)
  next
    case (Some m)
    then have "\<not> nan_median (dropna xs)" using median_None_iff[of xs] by simp
    with assms NumCol Some show ?thesis
      by (auto simp: unfillable_def fillna_no_None split: if_splits)
  qed
qed

section \<open>The chain\<close>

lemma handle_unfold:
  "handle h w =
     (case own_work h w of
        (Raises e, w') \<Rightarrow> (Raises e, w')
      | (Returns, w') \<Rightarrow> super_handle (next_handler h) w')"
  by (cases h) (simp_all split: prod.split outcome.split)

lemma size_next_handler: "next_handler h = Some s \<Longrightarrow> size s < size h"
  by (cases h) auto

lemma handle_raises_own:
  "fst (own_work h w) = Raises e \<Longrightarrow> handle h w = (Raises e, snd (own_work h w))"
  by (cases "own_work h w") (simp add: handle_unfold)

lemma handle_returns_last:
  "fst (own_work h w) = Returns \<Longrightarrow> next_handler h = None \<Longrightarrow> handle h w = (Returns, snd (own_work h w))"
  by (cases "own_work h w") (simp add: handle_unfold)

lemma handle_returns_next:
  "fst (own_work h w) = Returns \<Longrightarrow> next_handler h = Some s \<Longrightarrow> handle h w = handle s (snd (own_work h w))"
  by (cases "own_work h w") (simp add: handle_unfold)

lemma handle_invariant:
  assumes step: "\<And>h w. I w \<Longrightarrow> fst (own_work h w) = Returns \<Longrightarrow> I (snd (own_work h w))"
    and err: "\<And>h w e. I w \<Longrightarrow> fst (own_work h w) = Raises e \<Longrightarrow> Q e"
  shows "I w \<Longrightarrow> (case fst (handle h w) of Returns \<Rightarrow> I (snd (handle h w)) | Raises e \<Rightarrow> Q e)"
proof (induction h arbitrary: w rule: measure_induct_rule[of size])
  case (less h)
  show ?case
  proof (cases "fst (own_work h w)")
    case (Raises e)
    then show ?thesis using err[OF less.prems Raises] by (simp add: handle_raises_own)
  next
    case Returns
    note I' = step[OF less.prems Returns]
    show ?thesis
    proof (cases "next_handler h")
      case None
      then show ?thesis using I' Returns by (simp add: handle_returns_last)
    next
      case (Some s)
      have "size s < size h" using Some by (rule size_next_handler)
      have eq: "handle h w = handle s (snd (own_work h w))"
        using Returns Some by (rule handle_returns_next)
      from less.IH[OF \<open>size s < size h\<close> I'] show ?thesis unfolding eq .
    qed
  qed
qed

lemma impute_error: "impute c = Inl e \<Longrightarrow> e = KeyError"
  by (cases c) (auto split: if_splits list.splits option.splits)

lemma impute_loop_error:
  "impute_loop names cs = (Some e, cs') \<Longrightarrow> e = KeyError \<or> e = AmbiguousTruthValue"
  by (induction names cs arbitrary: cs' rule: impute_loop.induct)
     (auto split: if_splits sum.splits prod.splits dest: impute_error)

lemma open_csv_error:
  "fst (open_csv fp fn w) = Raises e \<Longrightarrow>
     (e = FileNotFoundError fn fp \<and> fs w (path_join fp fn) = None) \<or> e = ReadCsvError"
  by (auto simp: open_csv_def Let_def split: option.splits fsnode.splits)

lemma clean_data_error:
  "fst (clean_data w) = Raises e \<Longrightarrow>
     (e = NoDataToProcess \<and> (data w ''df'' = None \<or> data w ''df'' = Some PyNone))
     \<or> e = AttributeError \<or> e = KeyError \<or> e = AmbiguousTruthValue"
  by (auto simp: clean_data_def Let_def impute_all_def
           split: option.splits pyval.splits pyobj.splits prod.splits dest: impute_loop_error)

lemma sweetviz_error:
  "fst (sweetviz out w) = Raises e \<Longrightarrow>
     (e = NoDataForReport \<and> (data w ''df'' = None \<or> data w ''df'' = Some PyNone))
     \<or> e = SweetvizError"
  by (auto simp: sweetviz_def Let_def split: option.splits pyval.splits pyobj.splits if_splits)

lemma own_work_has_ref:
  "has_ref w \<Longrightarrow> fst (own_work h w) = Returns \<Longrightarrow> has_ref (snd (own_work h w))"
  by (cases h)
     (auto simp: has_ref_def open_csv_def clean_data_def sweetviz_def Let_def
           split: option.splits pyval.splits pyobj.splits prod.splits fsnode.splits if_splits)

lemma own_work_has_table:
  "has_table w \<Longrightarrow> fst (own_work h w) = Returns \<Longrightarrow> has_table (snd (own_work h w))"
  by (cases h)
     (auto simp: has_table_def open_csv_def clean_data_def sweetviz_def Let_def
           split: option.splits pyval.splits pyobj.splits prod.splits fsnode.splits if_splits)

lemma own_work_fs:
  "fs w p \<noteq> None \<Longrightarrow> fs (snd (own_work h w)) p \<noteq> None"
  by (cases h)
     (auto simp: open_csv_def clean_data_def sweetviz_def Let_def
           split: option.splits pyval.splits pyobj.splits prod.splits fsnode.splits if_splits)

text \<open>
  C3. Every handler does its own work; when that raises, the error is the result; when
  it returns and the handler has a successor, the result is the successor's
  \<^verbatim>\<open>handle\<close> on the context; when it returns and there is no successor, the context is
  returned as the own work left it.
\<close>

theorem handle_forwards_or_returns:
  "handle h w =
     (case own_work h w of
        (Raises e, w') \<Rightarrow> (Raises e, w')
      | (Returns, w') \<Rightarrow>
          (case next_handler h of None \<Rightarrow> (Returns, w') | Some s \<Rightarrow> handle s w'))"
  by (cases h; cases "next_handler h") (simp_all split: prod.split outcome.split)

section \<open>Cleaning\<close>

lemma handle_clean_None: "handle (CleanDataHandler None) w = clean_data w"
  by (cases "clean_data w"; cases "fst (clean_data w)") auto

lemma clean_data_success:
  assumes "fst (clean_data w) = Returns" "data w ''df'' = Some (Ref a)"
  shows "\<exists>df df'. heap w a = DataFrame df \<and> impute_all (drop_duplicates df) = (None, df') \<and>
           heap (snd (clean_data w)) a = DataFrame df' \<and> data (snd (clean_data w)) = data w"
proof (cases "heap w a")
  case OtherObject
  with assms show ?thesis by (simp add: clean_data_def)
next
  case (DataFrame df)
  obtain r df' where r: "impute_all (drop_duplicates df) = (r, df')" by (cases "impute_all (drop_duplicates df)")
  show ?thesis
  proof (cases r)
    case (Some e)
    with assms DataFrame r show ?thesis by (simp add: clean_data_def)
  next
    case None
    have "(data w)(''df'' \<mapsto> Ref a) = data w" using assms(2) by (rule map_upd_triv)
    with assms DataFrame r None show ?thesis by (simp add: clean_data_def)
  qed
qed

lemma col_lens_wf:
  assumes eq: "map (\<lambda>p. col_len (snd p)) df' = map (\<lambda>p. col_len (snd p)) df" and wf: "well_formed df"
  shows "well_formed df'"
proof -
  have n: "nrows d = (case map (\<lambda>p. col_len (snd p)) d of [] \<Rightarrow> 0 | l # ls \<Rightarrow> l)" for d :: dataframe
    by (cases d) (auto simp: nrows_def)
  have w: "well_formed d \<longleftrightarrow> (\<forall>l \<in> set (map (\<lambda>p. col_len (snd p)) d). l = nrows d)" for d
    by (auto simp: well_formed_def list_all_iff)
  have "nrows df' = nrows df" unfolding n eq ..
  with wf show ?thesis unfolding w eq by simp
qed

lemma impute_loop_col_lens:
  "impute_loop names cs = (None, cs') \<Longrightarrow>
     map (\<lambda>p. col_len (snd p)) cs' = map (\<lambda>p. col_len (snd p)) cs"
  by (induction names cs arbitrary: cs' rule: impute_loop.induct)
     (auto split: if_splits sum.splits prod.splits simp: impute_len)

lemma impute_all_wf: "impute_all df = (None, df') \<Longrightarrow> well_formed df \<Longrightarrow> well_formed df'"
  unfolding impute_all_def by (rule col_lens_wf[OF impute_loop_col_lens])



lemma impute_loop_unfillable:
  "impute_loop names cs = (None, cs') \<Longrightarrow>
     list_all2 (\<lambda>p p'. if unfillable (snd p) then p' = p
                        else fst p' = fst p \<and> \<not> isnull_any (snd p')) cs cs'"
proof (induction cs arbitrary: cs')
  case Nil
  then show ?case by simp
next
  case (Cons x cs)
  obtain n c where x: "x = (n, c)" by (cases x)
  from Cons.prems obtain c' cs'' where c': "impute c = Inr c'"
    and l: "impute_loop names cs = (None, cs'')" and e: "cs' = (n, c') # cs''"
    unfolding x by (auto split: if_splits sum.splits prod.splits)
  from impute_unfillable[OF c'] have "if unfillable c then (n, c') = (n, c) else \<not> isnull_any c'"
    by (simp split: if_splits)
  with Cons.IH[OF l] show ?case unfolding x e by (simp split: if_splits)
qed

text \<open>
  The median of minus infinity and plus infinity is NaN, and a column with these two values
  and a missing cell is left as it is.
\<close>

lemma median_of_opposite_infinities:
  "median [Some NInf, Some PInf, None] = None \<and>
   impute (NumCol [Some NInf, Some PInf, None]) = Inr (NumCol [Some NInf, Some PInf, None])"
  by code_simp

text \<open>
  C1, as the code has it. When \<^verbatim>\<open>CleanDataHandler.handle\<close> (no successor) returns, the
  table under the table key is the imputation of the deduplicated input. The
  deduplication leaves no two equal rows and keeps the first occurrence of each row, in
  order. After the imputation a column has no missing cell, unless it is a numeric column
  with missing cells whose median is NaN: none of its values is finite and minus infinity
  occurs as often as plus infinity, which includes a column without any value. Such a
  column is as the deduplication left it. The imputation may make rows equal again.
\<close>

theorem clean_postcondition:
  assumes "fst (handle (CleanDataHandler None) w) = Returns" and "data w ''df'' = Some (Ref a)"
  shows "\<exists>df df'. heap w a = DataFrame df \<and>
           heap (snd (handle (CleanDataHandler None) w)) a = DataFrame df' \<and>
           impute_all (drop_duplicates df) = (None, df') \<and>
           rows (drop_duplicates df) = rev (remdups (rev (rows df))) \<and>
           distinct (rows (drop_duplicates df)) \<and>
           list_all2 (\<lambda>p p'. if unfillable (snd p) then p' = p
                              else fst p' = fst p \<and> \<not> isnull_any (snd p'))
             (drop_duplicates df) df'"
proof -
  from assms obtain df df' where h: "heap w a = DataFrame df"
    and i: "impute_all (drop_duplicates df) = (None, df')"
    and h': "heap (snd (clean_data w)) a = DataFrame df'"
    unfolding handle_clean_None using clean_data_success by blast
  have r: "rows (drop_duplicates df) = rev (remdups (rev (rows df)))"
    by (rule rows_drop_duplicates_remdups)
  have d: "distinct (rows (drop_duplicates df))" unfolding r by simp
  have m: "list_all2 (\<lambda>p p'. if unfillable (snd p) then p' = p
                              else fst p' = fst p \<and> \<not> isnull_any (snd p'))
             (drop_duplicates df) df'"
    using i unfolding impute_all_def by (rule impute_loop_unfillable)
  from h h' i r d m show ?thesis unfolding handle_clean_None by blast
qed

theorem clean_postcondition_witness:
  "fst (handle (CleanDataHandler None)
         (world_with [(''x'', NumCol [Some (Finite 1), Some (Finite 1), None, None]),
                      (''y'', ObjectCol [Some ''a'', Some ''a'', Some ''b'', Some ''b'']),
                      (''z'', NumCol [Some NInf, Some NInf, Some PInf, None])])) = Returns \<and>
   data (world_with [(''x'', NumCol [Some (Finite 1), Some (Finite 1), None, None]),
                     (''y'', ObjectCol [Some ''a'', Some ''a'', Some ''b'', Some ''b'']),
                     (''z'', NumCol [Some NInf, Some NInf, Some PInf, None])]) ''df''
     = Some (Ref 0) \<and>
   (\<exists>df df'.
      heap (world_with [(''x'', NumCol [Some (Finite 1), Some (Finite 1), None, None]),
                        (''y'', ObjectCol [Some ''a'', Some ''a'', Some ''b'', Some ''b'']),
                        (''z'', NumCol [Some NInf, Some NInf, Some PInf, None])]) 0
        = DataFrame df \<and>
      heap (snd (handle (CleanDataHandler None)
         (world_with [(''x'', NumCol [Some (Finite 1), Some (Finite 1), None, None]),
                      (''y'', ObjectCol [Some ''a'', Some ''a'', Some ''b'', Some ''b'']),
                      (''z'', NumCol [Some NInf, Some NInf, Some PInf, None])]))) 0
        = DataFrame df' \<and>
      impute_all (drop_duplicates df) = (None, df') \<and>
      rows (drop_duplicates df) = rev (remdups (rev (rows df))) \<and>
      distinct (rows (drop_duplicates df)) \<and>
      list_all2 (\<lambda>p p'. if unfillable (snd p) then p' = p
                         else fst p' = fst p \<and> \<not> isnull_any (snd p'))
        (drop_duplicates df) df')"
proof -
  let ?w = "world_with [(''x'', NumCol [Some (Finite 1), Some (Finite 1), None, None]),
                        (''y'', ObjectCol [Some ''a'', Some ''a'', Some ''b'', Some ''b'']),
                        (''z'', NumCol [Some NInf, Some NInf, Some PInf, None])]"
  have h1: "fst (handle (CleanDataHandler None) ?w) = Returns" by code_simp
  have h2: "data ?w ''df'' = Some (Ref 0)" by (simp add: world_with_def)
  from clean_postcondition[OF h1 h2] h1 h2 show ?thesis by (intro conjI)
qed

text \<open>
  C1 as stated fails: with a numeric column \<open>1, 2, 3, NaN\<close> beside a numeric column
  without any value, the handler returns, the filled row equals the second row, and the
  second column is still missing everywhere.
\<close>

theorem clean_postcondition_counterexample:
  "fst (handle (CleanDataHandler None)
         (world_with [(''x'', NumCol [Some (Finite 1), Some (Finite 2), Some (Finite 3), None]),
                      (''y'', NumCol [None, None, None, None])])) = Returns \<and>
   heap (snd (handle (CleanDataHandler None)
         (world_with [(''x'', NumCol [Some (Finite 1), Some (Finite 2), Some (Finite 3), None]),
                      (''y'', NumCol [None, None, None, None])]))) 0 =
     DataFrame [(''x'', NumCol [Some (Finite 1), Some (Finite 2), Some (Finite 3), Some (Finite 2)]),
                (''y'', NumCol [None, None, None, None])] \<and>
   \<not> distinct (rows [(''x'', NumCol [Some (Finite 1), Some (Finite 2), Some (Finite 3), Some (Finite 2)]),
                     (''y'', NumCol [None, None, None, None])]) \<and>
   isnull_any (NumCol [None, None, None, None])"
  by code_simp




lemma clean_data_on_clean:
  assumes d: "data w ''df'' = Some (Ref a)" and h: "heap w a = DataFrame df"
    and dd: "drop_duplicates df = df" and i: "impute_all df = (None, df)"
  shows "fst (clean_data w) = Returns \<and> heap (snd (clean_data w)) a = DataFrame df"
  using assms by (simp add: clean_data_def)

text \<open>
  C7, as the code has it. When a first run of the cleaning returns a table without
  duplicate rows, a second run on that table returns the same table.
\<close>

theorem clean_twice:
  assumes "fst (handle (CleanDataHandler None) w) = Returns" and "data w ''df'' = Some (Ref a)"
    and "heap (snd (handle (CleanDataHandler None) w)) a = DataFrame d" and "distinct (rows d)"
  shows "fst (handle (CleanDataHandler None) (snd (handle (CleanDataHandler None) w))) = Returns \<and>
         heap (snd (handle (CleanDataHandler None) (snd (handle (CleanDataHandler None) w)))) a
           = DataFrame d"
proof -
  let ?w1 = "snd (clean_data w)"
  from assms(1,2) obtain df df' where h: "heap w a = DataFrame df"
    and i: "impute_all (drop_duplicates df) = (None, df')"
    and h': "heap ?w1 a = DataFrame df'" and dt: "data ?w1 = data w"
    unfolding handle_clean_None using clean_data_success by blast
  from assms(3) h' have d: "d = df'" unfolding handle_clean_None by simp
  have wf: "well_formed df'" using i well_formed_drop_duplicates by (rule impute_all_wf)
  have dd: "drop_duplicates df' = df'" using assms(4) wf unfolding d by (rule drop_duplicates_id)
  have ii: "impute_all df' = (None, df')" using i by (rule impute_all_idem)
  have d1: "data ?w1 ''df'' = Some (Ref a)" using dt assms(2) by simp
  from clean_data_on_clean[OF d1 h' dd ii] show ?thesis unfolding handle_clean_None d .
qed

theorem clean_twice_witness:
  "fst (handle (CleanDataHandler None)
         (world_with [(''x'', NumCol [Some (Finite 1), Some (Finite 1), Some (Finite 4), None])])) = Returns \<and>
   data (world_with [(''x'', NumCol [Some (Finite 1), Some (Finite 1), Some (Finite 4), None])]) ''df'' = Some (Ref 0) \<and>
   heap (snd (handle (CleanDataHandler None)
         (world_with [(''x'', NumCol [Some (Finite 1), Some (Finite 1), Some (Finite 4), None])]))) 0
     = DataFrame [(''x'', NumCol [Some (Finite 1), Some (Finite 4), Some (Finite (5 / 2))])] \<and>
   distinct (rows [(''x'', NumCol [Some (Finite 1), Some (Finite 4), Some (Finite (5 / 2))])]) \<and>
   fst (handle (CleanDataHandler None) (snd (handle (CleanDataHandler None)
         (world_with [(''x'', NumCol [Some (Finite 1), Some (Finite 1), Some (Finite 4), None])])))) = Returns \<and>
   heap (snd (handle (CleanDataHandler None) (snd (handle (CleanDataHandler None)
         (world_with [(''x'', NumCol [Some (Finite 1), Some (Finite 1), Some (Finite 4), None])]))))) 0
     = DataFrame [(''x'', NumCol [Some (Finite 1), Some (Finite 4), Some (Finite (5 / 2))])]"
proof -
  let ?w = "world_with [(''x'', NumCol [Some (Finite 1), Some (Finite 1), Some (Finite 4), None])]"
  let ?d = "[(''x'', NumCol [Some (Finite 1), Some (Finite 4), Some (Finite (5 / 2))])]"
  have h1: "fst (handle (CleanDataHandler None) ?w) = Returns" by code_simp
  have h2: "data ?w ''df'' = Some (Ref 0)" by (simp add: world_with_def)
  have h3: "heap (snd (handle (CleanDataHandler None) ?w)) 0 = DataFrame ?d" by code_simp
  have h4: "distinct (rows ?d)" by code_simp
  from clean_twice[OF h1 h2 h3 h4] h1 h2 h3 h4 show ?thesis by (intro conjI) simp_all
qed

text \<open>
  C7 as stated fails: the column \<open>1, 2, 3, NaN\<close> is cleaned to \<open>1, 2, 3, 2\<close>, and a
  second run drops the last row.
\<close>

theorem clean_twice_counterexample:
  "heap (snd (handle (CleanDataHandler None)
         (world_with [(''x'', NumCol [Some (Finite 1), Some (Finite 2), Some (Finite 3), None])]))) 0
     = DataFrame [(''x'', NumCol [Some (Finite 1), Some (Finite 2), Some (Finite 3), Some (Finite 2)])] \<and>
   heap (snd (handle (CleanDataHandler None) (snd (handle (CleanDataHandler None)
         (world_with [(''x'', NumCol [Some (Finite 1), Some (Finite 2), Some (Finite 3), None])]))))) 0
     = DataFrame [(''x'', NumCol [Some (Finite 1), Some (Finite 2), Some (Finite 3)])] \<and>
   heap (snd (handle (CleanDataHandler None) (snd (handle (CleanDataHandler None)
         (world_with [(''x'', NumCol [Some (Finite 1), Some (Finite 2), Some (Finite 3), None])]))))) 0
     \<noteq> heap (snd (handle (CleanDataHandler None)
         (world_with [(''x'', NumCol [Some (Finite 1), Some (Finite 2), Some (Finite 3), None])]))) 0"
  by code_simp

text \<open>
  C8. The column \<open>1, 2, 3, NaN\<close> is filled with 2 and the column \<open>1, 2, 3, 4, NaN\<close> with
  5/2, in the loop body and in a run of the handler on a table with that one column.
\<close>

theorem median_examples:
  "impute (NumCol [Some (Finite 1), Some (Finite 2), Some (Finite 3), None]) = Inr (NumCol [Some (Finite 1), Some (Finite 2), Some (Finite 3), Some (Finite 2)]) \<and>
   impute (NumCol [Some (Finite 1), Some (Finite 2), Some (Finite 3), Some (Finite 4), None])
     = Inr (NumCol [Some (Finite 1), Some (Finite 2), Some (Finite 3), Some (Finite 4), Some (Finite (5 / 2))]) \<and>
   fst (handle (CleanDataHandler None)
         (world_with [(''x'', NumCol [Some (Finite 1), Some (Finite 2), Some (Finite 3), None])])) = Returns \<and>
   heap (snd (handle (CleanDataHandler None)
         (world_with [(''x'', NumCol [Some (Finite 1), Some (Finite 2), Some (Finite 3), None])]))) 0
     = DataFrame [(''x'', NumCol [Some (Finite 1), Some (Finite 2), Some (Finite 3), Some (Finite 2)])] \<and>
   fst (handle (CleanDataHandler None)
         (world_with [(''x'', NumCol [Some (Finite 1), Some (Finite 2), Some (Finite 3), Some (Finite 4), None])])) = Returns \<and>
   heap (snd (handle (CleanDataHandler None)
         (world_with [(''x'', NumCol [Some (Finite 1), Some (Finite 2), Some (Finite 3), Some (Finite 4), None])]))) 0
     = DataFrame [(''x'', NumCol [Some (Finite 1), Some (Finite 2), Some (Finite 3), Some (Finite 4), Some (Finite (5 / 2))])]"
  by code_simp

section \<open>Missing input and the frame of the cleaning\<close>

lemma clean_missing_input:
  "data w ''df'' = None \<or> data w ''df'' = Some PyNone \<Longrightarrow>
     handle (CleanDataHandler nxt) w = (Raises NoDataToProcess, w)"
  by (auto simp: clean_data_def)

lemma sweetviz_missing_input:
  "data w ''df'' = None \<or> data w ''df'' = Some PyNone \<Longrightarrow>
     handle (SweetvizHandler output_dir nxt) w = (Raises NoDataForReport, w)"
  by (auto simp: sweetviz_def)

lemma own_work_error_has_ref:
  assumes "has_ref w" "fst (own_work h w) = Raises e"
  shows "e \<noteq> NoDataToProcess \<and> e \<noteq> NoDataForReport"
proof (cases h)
  case (OpenCsvHandler fp fn nxt)
  with assms(2) show ?thesis by (auto dest: open_csv_error)
next
  case (CleanDataHandler nxt)
  with assms show ?thesis by (auto simp: has_ref_def dest!: clean_data_error)
next
  case (SweetvizHandler out nxt)
  with assms show ?thesis by (auto simp: has_ref_def dest!: sweetviz_error)
qed

lemma handle_error_has_ref:
  assumes "has_ref w" shows "fst (handle h w) \<noteq> Raises NoDataToProcess \<and> fst (handle h w) \<noteq> Raises NoDataForReport"
  using handle_invariant[of has_ref "\<lambda>e. e \<noteq> NoDataToProcess \<and> e \<noteq> NoDataForReport" w h,
          OF own_work_has_ref own_work_error_has_ref assms]
  by (auto split: outcome.splits)

text \<open>
  C4. With the table key absent or \<^verbatim>\<open>None\<close>, \<^verbatim>\<open>CleanDataHandler.handle\<close> and
  \<^verbatim>\<open>SweetvizHandler.handle\<close> raise their error about missing data, whatever their
  successor. With the key referring to an object, no handler and no chain of handlers
  raises either of the two errors.
\<close>

theorem missing_input_raised:
  "((data w ''df'' = None \<or> data w ''df'' = Some PyNone) \<longrightarrow>
      fst (handle (CleanDataHandler nxt) w) = Raises NoDataToProcess \<and>
      fst (handle (SweetvizHandler output_dir nxt') w) = Raises NoDataForReport) \<and>
   ((\<exists>a. data w ''df'' = Some (Ref a)) \<longrightarrow>
      fst (handle h w) \<noteq> Raises NoDataToProcess \<and> fst (handle h w) \<noteq> Raises NoDataForReport)"
proof (intro conjI impI)
  assume "data w ''df'' = None \<or> data w ''df'' = Some PyNone"
  then show "fst (handle (CleanDataHandler nxt) w) = Raises NoDataToProcess"
    by (simp only: clean_missing_input fst_conv)
next
  assume "data w ''df'' = None \<or> data w ''df'' = Some PyNone"
  then show "fst (handle (SweetvizHandler output_dir nxt') w) = Raises NoDataForReport"
    by (simp only: sweetviz_missing_input fst_conv)
next
  assume "\<exists>a. data w ''df'' = Some (Ref a)"
  then have "has_ref w" by (simp add: has_ref_def)
  then show "fst (handle h w) \<noteq> Raises NoDataToProcess" by (simp add: handle_error_has_ref)
next
  assume "\<exists>a. data w ''df'' = Some (Ref a)"
  then have "has_ref w" by (simp add: has_ref_def)
  then show "fst (handle h w) \<noteq> Raises NoDataForReport" by (simp add: handle_error_has_ref)
qed

theorem missing_input_raised_witness:
  "(data empty_world ''df'' = None \<or> data empty_world ''df'' = Some PyNone) \<and>
   fst (handle (CleanDataHandler (Some (SweetvizHandler ''out'' None))) empty_world)
     = Raises NoDataToProcess \<and>
   fst (handle (SweetvizHandler ''out'' None) empty_world) = Raises NoDataForReport \<and>
   (\<exists>a. data (world_with [(''x'', NumCol [Some (Finite 1), None])]) ''df'' = Some (Ref a)) \<and>
   fst (handle (CleanDataHandler (Some (SweetvizHandler ''out'' None)))
          (world_with [(''x'', NumCol [Some (Finite 1), None])])) \<noteq> Raises NoDataToProcess \<and>
   fst (handle (CleanDataHandler (Some (SweetvizHandler ''out'' None)))
          (world_with [(''x'', NumCol [Some (Finite 1), None])])) \<noteq> Raises NoDataForReport"
proof -
  let ?w = "world_with [(''x'', NumCol [Some (Finite 1), None])]"
  have h1: "data empty_world ''df'' = None \<or> data empty_world ''df'' = Some PyNone"
    by (simp add: empty_world_def)
  have h2: "\<exists>a. data ?w ''df'' = Some (Ref a)" by (simp add: world_with_def)
  from missing_input_raised[of empty_world "Some (SweetvizHandler ''out'' None)" "''out''" None]
    missing_input_raised[of ?w _ _ _ "CleanDataHandler (Some (SweetvizHandler ''out'' None))"]
    h1 h2
  show ?thesis by blast
qed

text \<open>
  C10. When one of the two handlers raises its error about missing data, the world after
  the call is the world before it: the dict, the objects, the files and the log.
\<close>

theorem missing_input_leaves_world:
  "data w ''df'' = None \<or> data w ''df'' = Some PyNone \<Longrightarrow>
     snd (handle (CleanDataHandler nxt) w) = w \<and>
     snd (handle (SweetvizHandler output_dir nxt') w) = w"
  by (simp only: clean_missing_input sweetviz_missing_input snd_conv)

theorem missing_input_leaves_world_witness:
  "(data (empty_world\<lparr>data := [''df'' \<mapsto> PyNone]\<rparr>) ''df'' = None \<or>
    data (empty_world\<lparr>data := [''df'' \<mapsto> PyNone]\<rparr>) ''df'' = Some PyNone) \<and>
   snd (handle (CleanDataHandler None) (empty_world\<lparr>data := [''df'' \<mapsto> PyNone]\<rparr>))
     = empty_world\<lparr>data := [''df'' \<mapsto> PyNone]\<rparr> \<and>
   snd (handle (SweetvizHandler ''out'' None) (empty_world\<lparr>data := [''df'' \<mapsto> PyNone]\<rparr>))
     = empty_world\<lparr>data := [''df'' \<mapsto> PyNone]\<rparr>"
proof -
  have h: "data (empty_world\<lparr>data := [''df'' \<mapsto> PyNone]\<rparr>) ''df'' = None \<or>
           data (empty_world\<lparr>data := [''df'' \<mapsto> PyNone]\<rparr>) ''df'' = Some PyNone"
    by simp
  from missing_input_leaves_world[OF h, of None "''out''" None] h show ?thesis by (intro conjI) simp_all
qed

text \<open>
  C9. The own work of \<^verbatim>\<open>CleanDataHandler\<close> leaves every key other than the table key
  with the reference it had, whether it returns or raises, and changes no object other
  than the one the table key refers to.
\<close>

theorem clean_frame:
  "(k \<noteq> ''df'' \<longrightarrow> data (snd (own_work (CleanDataHandler nxt) w)) k = data w k) \<and>
   (data w ''df'' \<noteq> Some (Ref b) \<longrightarrow> heap (snd (own_work (CleanDataHandler nxt) w)) b = heap w b)"
  by (auto simp: clean_data_def Let_def split: option.splits pyval.splits pyobj.splits prod.splits)

theorem clean_frame_witness:
  "''other'' \<noteq> ''df'' \<and>
   data (snd (own_work (CleanDataHandler None)
           ((world_with [(''x'', NumCol [Some (Finite 1), None])])
              \<lparr>data := [''df'' \<mapsto> Ref 0, ''other'' \<mapsto> Ref 1]\<rparr>))) ''other''
     = Some (Ref 1) \<and>
   data ((world_with [(''x'', NumCol [Some (Finite 1), None])])
              \<lparr>data := [''df'' \<mapsto> Ref 0, ''other'' \<mapsto> Ref 1]\<rparr>) ''df'' \<noteq> Some (Ref 1) \<and>
   heap (snd (own_work (CleanDataHandler None)
           ((world_with [(''x'', NumCol [Some (Finite 1), None])])
              \<lparr>data := [''df'' \<mapsto> Ref 0, ''other'' \<mapsto> Ref 1]\<rparr>))) 1
     = OtherObject"
proof -
  let ?w = "(world_with [(''x'', NumCol [Some (Finite 1), None])])\<lparr>data := [''df'' \<mapsto> Ref 0, ''other'' \<mapsto> Ref 1]\<rparr>"
  have h1: "''other'' \<noteq> ''df''" by simp
  have h2: "data ?w ''df'' \<noteq> Some (Ref 1)" by simp
  have v1: "data ?w ''other'' = Some (Ref 1)" by simp
  have v2: "heap ?w 1 = OtherObject" by (simp add: world_with_def)
  from clean_frame[of "''other''" None ?w 1] h1 h2 v1 v2 show ?thesis by (intro conjI) simp_all
qed

section \<open>Loading and running the chain\<close>

lemma handle_has_table:
  assumes "has_table w" "fst (handle h w) = Returns" shows "has_table (snd (handle h w))"
  using handle_invariant[of has_table "\<lambda>e. True" w h, OF own_work_has_table TrueI assms(1)] assms(2)
  by simp

lemma own_work_error_exists:
  assumes "fs w (path_join fp fn) \<noteq> None" "fst (own_work h w) = Raises e"
  shows "e \<noteq> FileNotFoundError fn fp"
proof (cases h)
  case (OpenCsvHandler fp' fn' nxt)
  with assms show ?thesis by (auto dest!: open_csv_error)
next
  case (CleanDataHandler nxt)
  with assms(2) show ?thesis by (auto dest!: clean_data_error)
next
  case (SweetvizHandler out nxt)
  with assms(2) show ?thesis by (auto dest!: sweetviz_error)
qed

lemma handle_error_exists:
  assumes "fs w (path_join fp fn) \<noteq> None"
  shows "fst (handle h w) \<noteq> Raises (FileNotFoundError fn fp)"
  using handle_invariant[of "\<lambda>w. fs w (path_join fp fn) \<noteq> None" "\<lambda>e. e \<noteq> FileNotFoundError fn fp" w h,
          OF own_work_fs own_work_error_exists assms]
  by (auto split: outcome.splits)

lemma open_csv_missing:
  "fs w (path_join fp fn) = None \<Longrightarrow> handle (OpenCsvHandler fp fn nxt) w = (Raises (FileNotFoundError fn fp), w)"
  by (simp add: open_csv_def)

lemma open_csv_success:
  assumes "fst (open_csv fp fn w) = Returns"
  shows "\<exists>df. fs w (path_join fp fn) = Some (CsvFile df) \<and>
           data (snd (open_csv fp fn w)) ''df'' = Some (Ref (next_addr w)) \<and>
           heap (snd (open_csv fp fn w)) (next_addr w) = DataFrame df"
  using assms by (auto simp: open_csv_def Let_def split: option.splits fsnode.splits)

lemma handle_open_csv_None: "handle (OpenCsvHandler fp fn None) w = open_csv fp fn w"
  by (cases "open_csv fp fn w"; cases "fst (open_csv fp fn w)") auto

lemma handle_open_csv_has_table:
  assumes "fst (handle (OpenCsvHandler fp fn nxt) w) = Returns"
  shows "has_table (snd (handle (OpenCsvHandler fp fn nxt) w))"
proof -
  let ?h = "OpenCsvHandler fp fn nxt"
  have own: "fst (own_work ?h w) = Returns"
  proof (cases "fst (own_work ?h w)")
    case (Raises e)
    from handle_raises_own[OF Raises] assms show ?thesis by (simp del: handle.simps)
  qed simp
  then have t: "has_table (snd (own_work ?h w))"
    using open_csv_success[of fp fn w] by (auto simp: has_table_def)
  show ?thesis
  proof (cases nxt)
    case None
    then show ?thesis using t own handle_returns_last[of ?h w] by simp
  next
    case (Some s)
    then have eq: "handle ?h w = handle s (snd (own_work ?h w))"
      using own handle_returns_next[of ?h w s] by simp
    from assms show ?thesis unfolding eq using t by (rule handle_has_table[rotated])
  qed
qed

text \<open>
  C5. \<^verbatim>\<open>OpenCsvHandler.handle\<close>, whatever its successor, raises the error that names
  its file and its directory exactly when nothing is at the joined path. When the call
  returns, the table key refers to a table; without a successor that table is the parsed
  file, in a new object.
\<close>

theorem open_csv_contract:
  "(fst (handle (OpenCsvHandler file_path file_name nxt) w)
       = Raises (FileNotFoundError file_name file_path)
     \<longleftrightarrow> fs w (path_join file_path file_name) = None) \<and>
   (fst (handle (OpenCsvHandler file_path file_name nxt) w) = Returns \<longrightarrow>
      has_table (snd (handle (OpenCsvHandler file_path file_name nxt) w))) \<and>
   (fst (handle (OpenCsvHandler file_path file_name None) w) = Returns \<longrightarrow>
      (\<exists>df. fs w (path_join file_path file_name) = Some (CsvFile df) \<and>
         data (snd (handle (OpenCsvHandler file_path file_name None) w)) ''df''
           = Some (Ref (next_addr w)) \<and>
         heap (snd (handle (OpenCsvHandler file_path file_name None) w)) (next_addr w)
           = DataFrame df))"
proof (intro conjI impI)
  show "fst (handle (OpenCsvHandler file_path file_name nxt) w)
          = Raises (FileNotFoundError file_name file_path)
        \<longleftrightarrow> fs w (path_join file_path file_name) = None"
  proof
    assume r: "fst (handle (OpenCsvHandler file_path file_name nxt) w)
                 = Raises (FileNotFoundError file_name file_path)"
    show "fs w (path_join file_path file_name) = None"
    proof (rule ccontr)
      assume "fs w (path_join file_path file_name) \<noteq> None"
      from handle_error_exists[OF this] r show False by blast
    qed
  next
    assume "fs w (path_join file_path file_name) = None"
    then show "fst (handle (OpenCsvHandler file_path file_name nxt) w)
                 = Raises (FileNotFoundError file_name file_path)"
      by (simp only: open_csv_missing fst_conv)
  qed
next
  assume "fst (handle (OpenCsvHandler file_path file_name nxt) w) = Returns"
  then show "has_table (snd (handle (OpenCsvHandler file_path file_name nxt) w))"
    by (rule handle_open_csv_has_table)
next
  assume "fst (handle (OpenCsvHandler file_path file_name None) w) = Returns"
  then show "\<exists>df. fs w (path_join file_path file_name) = Some (CsvFile df) \<and>
         data (snd (handle (OpenCsvHandler file_path file_name None) w)) ''df''
           = Some (Ref (next_addr w)) \<and>
         heap (snd (handle (OpenCsvHandler file_path file_name None) w)) (next_addr w)
           = DataFrame df"
    unfolding handle_open_csv_None by (rule open_csv_success)
qed

theorem open_csv_contract_witness:
  "fst (handle (OpenCsvHandler ''/tmp/in'' ''d.csv'' None) empty_world)
     = Raises (FileNotFoundError ''d.csv'' ''/tmp/in'') \<and>
   fs empty_world (path_join ''/tmp/in'' ''d.csv'') = None \<and>
   fst (handle (OpenCsvHandler ''/tmp/in'' ''d.csv'' None)
     (empty_world\<lparr>fs := [''/tmp/in/d.csv'' \<mapsto> CsvFile [(''x'', NumCol [Some (Finite 1), None])]]\<rparr>))
     = Returns \<and>
   has_table (snd (handle (OpenCsvHandler ''/tmp/in'' ''d.csv'' None)
     (empty_world\<lparr>fs := [''/tmp/in/d.csv'' \<mapsto> CsvFile [(''x'', NumCol [Some (Finite 1), None])]]\<rparr>))) \<and>
   (\<exists>df. fs (empty_world\<lparr>fs := [''/tmp/in/d.csv'' \<mapsto> CsvFile [(''x'', NumCol [Some (Finite 1), None])]]\<rparr>)
            (path_join ''/tmp/in'' ''d.csv'') = Some (CsvFile df) \<and>
         data (snd (handle (OpenCsvHandler ''/tmp/in'' ''d.csv'' None)
           (empty_world\<lparr>fs := [''/tmp/in/d.csv'' \<mapsto> CsvFile [(''x'', NumCol [Some (Finite 1), None])]]\<rparr>))) ''df''
           = Some (Ref (next_addr (empty_world\<lparr>fs := [''/tmp/in/d.csv'' \<mapsto> CsvFile [(''x'', NumCol [Some (Finite 1), None])]]\<rparr>))) \<and>
         heap (snd (handle (OpenCsvHandler ''/tmp/in'' ''d.csv'' None)
           (empty_world\<lparr>fs := [''/tmp/in/d.csv'' \<mapsto> CsvFile [(''x'', NumCol [Some (Finite 1), None])]]\<rparr>)))
           (next_addr (empty_world\<lparr>fs := [''/tmp/in/d.csv'' \<mapsto> CsvFile [(''x'', NumCol [Some (Finite 1), None])]]\<rparr>))
           = DataFrame df)"
proof -
  let ?w = "empty_world\<lparr>fs := [''/tmp/in/d.csv'' \<mapsto> CsvFile [(''x'', NumCol [Some (Finite 1), None])]]\<rparr>"
  have h1: "fs empty_world (path_join ''/tmp/in'' ''d.csv'') = None" by (simp add: empty_world_def)
  have h2: "fst (handle (OpenCsvHandler ''/tmp/in'' ''d.csv'' None) ?w) = Returns"
    by (simp add: open_csv_def path_join_def)
  from open_csv_contract[where file_path = "''/tmp/in''" and file_name = "''d.csv''" and nxt = None and w = empty_world]
    open_csv_contract[where file_path = "''/tmp/in''" and file_name = "''d.csv''" and nxt = None and w = ?w] h1 h2
  show ?thesis by blast
qed

lemma handle_error_built: "fst (handle h w) \<noteq> Raises ChainNotBuilt"
proof -
  have "e \<noteq> ChainNotBuilt" if "fst (own_work h w) = Raises e" for h w e
    using that by (cases h) (auto dest!: open_csv_error clean_data_error sweetviz_error)
  from handle_invariant[of "\<lambda>w. True" "\<lambda>e. e \<noteq> ChainNotBuilt" w h, OF TrueI this TrueI]
  show ?thesis by (auto split: outcome.splits)
qed

text \<open>
  C6. Without a chain \<^verbatim>\<open>execute\<close> raises its error and leaves the world as it was: no
  file is read or written and nothing is logged. With a chain it calls the head handler
  with an empty dict, after one log message, and does not raise that error.
\<close>

theorem execute_contract:
  "(chain flow = None \<longrightarrow> execute flow w = (Raises ChainNotBuilt, w)) \<and>
   (chain flow = Some h \<longrightarrow>
      execute flow w = handle h (w\<lparr>log := log w @ [ChainStarted], data := Map.empty\<rparr>) \<and>
      fst (execute flow w) \<noteq> Raises ChainNotBuilt)"
  by (auto simp: execute_def handle_error_built)

theorem execute_contract_witness:
  "chain \<lparr>config = [''datasets_dir'' \<mapsto> ''/tmp/in'', ''file_name'' \<mapsto> ''d.csv'',
                    ''output_dir'' \<mapsto> ''/tmp/out''], chain = None\<rparr> = None \<and>
   execute \<lparr>config = [''datasets_dir'' \<mapsto> ''/tmp/in'', ''file_name'' \<mapsto> ''d.csv'',
                      ''output_dir'' \<mapsto> ''/tmp/out''], chain = None\<rparr> empty_world
     = (Raises ChainNotBuilt, empty_world) \<and>
   chain \<lparr>config = [''datasets_dir'' \<mapsto> ''/tmp/in'', ''file_name'' \<mapsto> ''d.csv'',
                    ''output_dir'' \<mapsto> ''/tmp/out''],
          chain = Some (OpenCsvHandler ''/tmp/in'' ''d.csv''
                     (Some (CleanDataHandler (Some (SweetvizHandler ''/tmp/out'' None)))))\<rparr>
     = Some (OpenCsvHandler ''/tmp/in'' ''d.csv''
               (Some (CleanDataHandler (Some (SweetvizHandler ''/tmp/out'' None))))) \<and>
   execute \<lparr>config = [''datasets_dir'' \<mapsto> ''/tmp/in'', ''file_name'' \<mapsto> ''d.csv'',
                      ''output_dir'' \<mapsto> ''/tmp/out''],
            chain = Some (OpenCsvHandler ''/tmp/in'' ''d.csv''
                     (Some (CleanDataHandler (Some (SweetvizHandler ''/tmp/out'' None)))))\<rparr>
       empty_world
     = handle (OpenCsvHandler ''/tmp/in'' ''d.csv''
               (Some (CleanDataHandler (Some (SweetvizHandler ''/tmp/out'' None)))))
         (empty_world\<lparr>log := log empty_world @ [ChainStarted], data := Map.empty\<rparr>) \<and>
   fst (execute \<lparr>config = [''datasets_dir'' \<mapsto> ''/tmp/in'', ''file_name'' \<mapsto> ''d.csv'',
                      ''output_dir'' \<mapsto> ''/tmp/out''],
            chain = Some (OpenCsvHandler ''/tmp/in'' ''d.csv''
                     (Some (CleanDataHandler (Some (SweetvizHandler ''/tmp/out'' None)))))\<rparr>
       empty_world)
     \<noteq> Raises ChainNotBuilt"
proof -
  let ?c = "[''datasets_dir'' \<mapsto> ''/tmp/in'', ''file_name'' \<mapsto> ''d.csv'',
             ''output_dir'' \<mapsto> ''/tmp/out'']"
  let ?h = "OpenCsvHandler ''/tmp/in'' ''d.csv''
               (Some (CleanDataHandler (Some (SweetvizHandler ''/tmp/out'' None))))"
  have h1: "chain \<lparr>config = ?c, chain = None\<rparr> = None" by simp
  have h2: "chain \<lparr>config = ?c, chain = Some ?h\<rparr> = Some ?h" by simp
  from execute_contract[where flow = "\<lparr>config = ?c, chain = None\<rparr>" and w = empty_world]
    execute_contract[where flow = "\<lparr>config = ?c, chain = Some ?h\<rparr>" and h = ?h and w = empty_world]
    h1 h2
  show ?thesis by blast
qed

end
